theory Spec2Isabelle
  imports Main "HOL-Library.Sublist" "HOL-Library.Multiset"
begin

section \<open>Values of the rendered tree\<close>

text \<open>
  The wrapper and traversal code inspects whatever the rendering backend hands over:
  React elements, text and number leaves, \<open>null\<close>/\<open>undefined\<close>/boolean holes and
  (possibly nested) arrays of these. Objects, arrays, elements and functions carry an
  address, so that JavaScript's \<open>===\<close> on them is a comparison of addresses; primitives
  are compared by value. Numbers are modelled as integers (no \<open>NaN\<close>), strings as lists
  of 8-bit characters. Property objects are association lists in insertion order, which
  is the order \<open>Object.keys\<close> enumerates. Plain objects and functions stand for the
  values of props (a style object, a handler); where one is met as a node it has no
  \<open>type\<close>, \<open>_store\<close> or \<open>props\<close>.

  The \<open>type\<close> of an element is a tag name or a component constructor; a constructor
  has an address, a \<open>name\<close> and an optional \<open>displayName\<close>.
\<close>

datatype etype =
    Tag string
  | Comp nat string "string option"

datatype jsval =
    JUndefined
  | JNull
  | JBool bool
  | JNum int
  | JStr string
  | JFun nat
  | JArr nat "jsval list"
  | JObj nat "(string \<times> jsval) list"
  | JElem nat etype "(string \<times> jsval) list"

type_synonym props = "(string \<times> jsval) list"

text \<open>\<open>a === b\<close>.\<close>

fun strict_eq :: "jsval \<Rightarrow> jsval \<Rightarrow> bool" where
  "strict_eq JUndefined JUndefined = True"
| "strict_eq JNull JNull = True"
| "strict_eq (JBool a) (JBool b) = (a = b)"
| "strict_eq (JNum a) (JNum b) = (a = b)"
| "strict_eq (JStr a) (JStr b) = (a = b)"
| "strict_eq (JFun a) (JFun b) = (a = b)"
| "strict_eq (JArr a _) (JArr b _) = (a = b)"
| "strict_eq (JObj a _) (JObj b _) = (a = b)"
| "strict_eq (JElem a _ _) (JElem b _ _) = (a = b)"
| "strict_eq _ _ = False"

text \<open>Truthiness: what \<open>!x\<close>, \<open>x && y\<close>, \<open>x || y\<close> and \<open>compact\<close> test.\<close>

fun truthy :: "jsval \<Rightarrow> bool" where
  "truthy JUndefined = False"
| "truthy JNull = False"
| "truthy (JBool b) = b"
| "truthy (JNum n) = (n \<noteq> 0)"
| "truthy (JStr s) = (s \<noteq> [])"
| "truthy _ = True"

datatype jstype = TUndefined | TObject | TBoolean | TNumber | TString | TFunction

text \<open>\<open>typeof x\<close>.\<close>

fun typeof :: "jsval \<Rightarrow> jstype" where
  "typeof JUndefined = TUndefined"
| "typeof JNull = TObject"
| "typeof (JBool _) = TBoolean"
| "typeof (JNum _) = TNumber"
| "typeof (JStr _) = TString"
| "typeof (JFun _) = TFunction"
| "typeof _ = TObject"

fun isArray :: "jsval \<Rightarrow> bool" where
  "isArray (JArr _ _) = True"
| "isArray _ = False"

text \<open>\<open>obj[key]\<close> on a property object: the stored value, or \<open>undefined\<close>.\<close>

definition get_prop :: "props \<Rightarrow> string \<Rightarrow> jsval" where
  "get_prop ps k = (case map_of ps k of None \<Rightarrow> JUndefined | Some v \<Rightarrow> v)"

text \<open>\<open>key in obj\<close>, for own keys; inherited properties are not modelled.\<close>

definition has_key :: "props \<Rightarrow> string \<Rightarrow> bool" where
  "has_key ps k = (map_of ps k \<noteq> None)"

text \<open>
  \<open>propsOfNode\<close> (Utils.js): \<open>(node && node._store && node._store.props) || {}\<close> under
  React 0.13, \<open>(node && node.props) || {}\<close> otherwise. Both read the element's props;
  every other value has none.
\<close>

fun propsOfNode :: "jsval \<Rightarrow> props" where
  "propsOfNode (JElem _ _ ps) = ps"
| "propsOfNode _ = []"

text \<open>
  The chain \<open>node && node._store && node._store.props && node._store.props[key]\<close> of
  ShallowTraversal.js: a falsy node is the value of the chain; a truthy value that is not
  an element has no \<open>_store\<close>, so the chain is \<open>undefined\<close>.
\<close>

fun store_prop :: "jsval \<Rightarrow> string \<Rightarrow> jsval" where
  "store_prop (JElem r t ps) k = get_prop ps k"
| "store_prop v k = (if truthy v then JUndefined else v)"

text \<open>\<open>node.type\<close>, for a node that is not \<open>null\<close> or \<open>undefined\<close>.\<close>

fun type_of :: "jsval \<Rightarrow> etype option" where
  "type_of (JElem _ t _) = Some t"
| "type_of _ = None"

text \<open>The number of constructors of a value; the measure of the traversals.\<close>

fun jsize :: "jsval \<Rightarrow> nat" where
  "jsize (JArr _ xs) = Suc (sum_list (map jsize xs))"
| "jsize (JObj _ fs) = Suc (sum_list (map (\<lambda>kv. jsize (snd kv)) fs))"
| "jsize (JElem _ _ ps) = Suc (sum_list (map (\<lambda>kv. jsize (snd kv)) ps))"
| "jsize _ = Suc 0"

section \<open>ShallowTraversal.js\<close>

text \<open>
  \<open>React.Children.forEach\<close> belongs to React: it presents nothing for a \<open>null\<close> or
  \<open>undefined\<close> children value, flattens nested arrays, and presents \<open>undefined\<close> and
  boolean entries as \<open>null\<close>. What it does with a plain object or a function as a
  child is not modelled: such a value is presented as it is.
\<close>

fun children_leaves :: "jsval \<Rightarrow> jsval list" where
  "children_leaves (JArr _ xs) = concat (map children_leaves xs)"
| "children_leaves JUndefined = [JNull]"
| "children_leaves (JBool _) = [JNull]"
| "children_leaves v = [v]"

fun Children_forEach :: "jsval \<Rightarrow> jsval list" where
  "Children_forEach JUndefined = []"
| "Children_forEach JNull = []"
| "Children_forEach v = children_leaves v"

definition childrenOfNode :: "jsval \<Rightarrow> jsval list" where
  "childrenOfNode node =
     (if \<not> truthy node then []
      else Children_forEach (store_prop node ''children''))"

lemma jsize_pos: "0 < jsize v"
  by (cases v) simp_all

lemma children_leaves_size: "sum_list (map jsize (children_leaves v)) \<le> jsize v"
proof (induction v rule: children_leaves.induct)
  case (1 r xs)
  have "sum_list (map jsize (concat (map children_leaves xs))) \<le> sum_list (map jsize xs)"
    using 1 by (induction xs) (auto simp: add_mono)
  then show ?case by simp
qed simp_all

lemma Children_forEach_size: "sum_list (map jsize (Children_forEach v)) \<le> jsize v"
  using children_leaves_size [of v] by (cases v) simp_all

lemma get_prop_size: "jsize (get_prop ps k) \<le> Suc (sum_list (map (\<lambda>kv. jsize (snd kv)) ps))"
proof (induction ps)
  case Nil
  then show ?case by (simp add: get_prop_def)
next
  case (Cons p ps)
  then show ?case by (cases p) (auto simp: get_prop_def split: option.splits)
qed

lemma childrenOfNode_size: "sum_list (map jsize (childrenOfNode n)) < jsize n"
proof (cases n)
  case (JElem r t ps)
  have "sum_list (map jsize (Children_forEach (get_prop ps ''children'')))
          \<le> jsize (get_prop ps ''children'')"
    by (rule Children_forEach_size)
  moreover have "map_of ps ''children'' = Some v \<Longrightarrow> jsize v \<le> sum_list (map (\<lambda>kv. jsize (snd kv)) ps)" for v
    by (induction ps) (auto split: if_splits)
  ultimately show ?thesis using JElem
    by (auto simp: childrenOfNode_def get_prop_def split: option.splits)
qed (simp_all add: childrenOfNode_def)

lemma childrenOfNode_member_size: "c \<in> set (childrenOfNode n) \<Longrightarrow> jsize c < jsize n"
proof -
  assume "c \<in> set (childrenOfNode n)"
  then have "jsize c \<le> sum_list (map jsize (childrenOfNode n))"
    by (simp add: member_le_sum_list)
  then show ?thesis using childrenOfNode_size [of n] by simp
qed


text \<open>
  String concatenation coerces its operand (\<open>' ' + classes + ' '\<close>). Integers print
  in decimal (the exponent form of very large numbers is not modelled), arrays join their entries with commas, objects print as
  \<open>[object Object]\<close>; the source text a function prints as is not modelled and is
  represented by the word \<open>function\<close>.
\<close>

function digits :: "nat \<Rightarrow> string" where
  "digits n = (if n < 10 then [char_of (48 + n)] else digits (n div 10) @ [char_of (48 + n mod 10)])"
  by pat_completeness auto
termination
  by (relation "measure id") auto

fun join_comma :: "string list \<Rightarrow> string" where
  "join_comma [] = []"
| "join_comma [x] = x"
| "join_comma (x # xs) = x @ '','' @ join_comma xs"

fun ToString :: "jsval \<Rightarrow> string" where
  "ToString JUndefined = ''undefined''"
| "ToString JNull = ''null''"
| "ToString (JBool b) = (if b then ''true'' else ''false'')"
| "ToString (JNum n) = (if n < 0 then ''-'' @ digits (nat (- n)) else digits (nat n))"
| "ToString (JStr s) = s"
| "ToString (JFun _) = ''function''"
| "ToString (JArr _ xs) =
     join_comma (map (\<lambda>x. if x = JNull \<or> x = JUndefined then [] else ToString x) xs)"
| "ToString (JObj _ _) = ''[object Object]''"
| "ToString (JElem _ _ _) = ''[object Object]''"

text \<open>\<open>haystack.indexOf(needle)\<close>: the first position of a match, or \<open>-1\<close>.\<close>

fun indexOf :: "string \<Rightarrow> string \<Rightarrow> int" where
  "indexOf [] needle = (if needle = [] then 0 else - 1)"
| "indexOf (c # cs) needle =
     (if prefix needle (c # cs) then 0
      else (let r = indexOf cs needle in if r < 0 then - 1 else r + 1))"

text \<open>\<open>node && node._store && node._store.props && node._store.props.className || ''\<close>.\<close>

definition classes_of :: "jsval \<Rightarrow> jsval" where
  "classes_of node =
     (let c = store_prop node ''className'' in if truthy c then c else JStr [])"

definition hasClassName :: "jsval \<Rightarrow> string \<Rightarrow> bool" where
  "hasClassName node className =
     (let classes = classes_of node
      in indexOf ('' '' @ ToString classes @ '' '') ('' '' @ className @ '' '') > - 1)"

text \<open>
  \<open>treeForEach\<close> calls \<open>fn\<close> on the tree and then walks the children in order. The
  callback's effect (pushing onto \<open>results\<close> in \<open>treeFilter\<close>) is a state \<open>'s\<close>
  threaded through the walk.
\<close>

function treeForEach :: "jsval \<Rightarrow> (jsval \<Rightarrow> 's \<Rightarrow> 's) \<Rightarrow> 's \<Rightarrow> 's" where
  "treeForEach tree fn s = fold (\<lambda>node. treeForEach node fn) (childrenOfNode tree) (fn tree s)"
  by pat_completeness auto
termination
  by (relation "measure (\<lambda>(tree, fn, s). jsize tree)")
     (auto simp: childrenOfNode_member_size)

declare treeForEach.simps [simp del]

definition treeFilter :: "jsval \<Rightarrow> (jsval \<Rightarrow> bool) \<Rightarrow> jsval list" where
  "treeFilter tree fn =
     treeForEach tree (\<lambda>node results. if fn node then results @ [node] else results) []"

text \<open>
  \<open>pathToNode\<close>: \<open>queue.pop()\<close> takes the last entry, \<open>queue.push.apply(queue, children)\<close>
  appends the children in order; \<open>path.push\<close>/\<open>path.pop\<close> work at the end of \<open>path\<close>.
  The result \<open>null\<close> is \<open>None\<close>.
\<close>

function pathToNode_while :: "jsval \<Rightarrow> jsval list \<Rightarrow> jsval list \<Rightarrow> jsval list option" where
  "pathToNode_while node queue path =
     (if queue = [] then None
      else
        let current = last queue;
            queue1 = butlast queue;
            children = childrenOfNode current
        in if strict_eq current node then Some path
           else
             let path1 = path @ [current];
                 path2 = (if length children = 0 then butlast path1 else path1)
             in pathToNode_while node (queue1 @ children) path2)"
  by pat_completeness auto
termination
proof (relation "measure (\<lambda>(node, queue, path). sum_list (map jsize queue))", goal_cases)
  case 1
  show ?case by simp
next
  case (2 node queue path current queue1 children)
  then have q: "queue = queue1 @ [current]"
    by simp
  show ?case
    using childrenOfNode_size [of current] 2(4) by (simp add: q)
qed

declare pathToNode_while.simps [simp del]

definition pathToNode :: "jsval \<Rightarrow> jsval \<Rightarrow> jsval list option" where
  "pathToNode node root = pathToNode_while node [root] []"

datatype error =
    SelectorError string
  | SelectorTypeError
  | RootOnly string
  | NotSingle nat
  | JsTypeError

text \<open>
  \<open>parentsOfNode\<close> calls \<open>.reverse()\<close> on the result of \<open>pathToNode\<close>; on \<open>null\<close> that
  is a \<open>TypeError\<close> of the runtime.
\<close>

definition parentsOfNode :: "jsval \<Rightarrow> jsval \<Rightarrow> error + jsval list" where
  "parentsOfNode node root =
     (case pathToNode node root of None \<Rightarrow> Inl JsTypeError | Some path \<Rightarrow> Inr (rev path))"

definition nodeHasId :: "jsval \<Rightarrow> string \<Rightarrow> bool" where
  "nodeHasId node ident = strict_eq (store_prop node ''id'') (JStr ident)"

definition nodeHasType :: "jsval \<Rightarrow> string \<Rightarrow> bool" where
  "nodeHasType node type =
     (if type = [] \<or> \<not> truthy node then False
      else case type_of node of
             None \<Rightarrow> False
           | Some (Tag t) \<Rightarrow> (if t = [] then False else t = type)
           | Some (Comp _ name displayName) \<Rightarrow> name = type \<or> displayName = Some type)"


section \<open>Utils.js: selectors\<close>

text \<open>
  The regular expressions of Utils.js, written out as functions on character lists.
  \<open>\s\<close> matches the white space characters (of the 8-bit range: tab, line feed,
  vertical tab, form feed, carriage return, space, no-break space); \<open>.\<close> matches every
  character but a line terminator; \<open>[a-z]\<close> under the flag \<open>i\<close> matches the letters of
  both cases.
\<close>

definition is_space :: "char \<Rightarrow> bool" where
  "is_space c = (c \<in> {CHR 0x09, CHR 0x0A, CHR 0x0B, CHR 0x0C, CHR 0x0D, CHR 0x20, CHR 0xA0})"

definition line_terminator :: "char \<Rightarrow> bool" where
  "line_terminator c = (c = CHR 0x0A \<or> c = CHR 0x0D)"

definition is_letter :: "char \<Rightarrow> bool" where
  "is_letter c =
     (let n = (of_char c :: nat) in (97 \<le> n \<and> n \<le> 122) \<or> (65 \<le> n \<and> n \<le> 90))"

text \<open>\<open>/[~\s:>]/\<close> on one character.\<close>

definition complex_char :: "char \<Rightarrow> bool" where
  "complex_char c = (c = CHR ''~'' \<or> is_space c \<or> c = CHR '':'' \<or> c = CHR ''>'')"

definition isSimpleSelector :: "string \<Rightarrow> bool" where
  "isSimpleSelector selector = (\<not> list_ex complex_char selector)"

definition selectorError :: "string \<Rightarrow> error" where
  "selectorError selector = SelectorError selector"

text \<open>\<open>.*\]\<close> matched at the start of a string.\<close>

fun dot_star_rbracket :: "string \<Rightarrow> bool" where
  "dot_star_rbracket [] = False"
| "dot_star_rbracket (c # cs) = (c = CHR '']'' \<or> (\<not> line_terminator c \<and> dot_star_rbracket cs))"

text \<open>\<open>isCompoundSelector.test(selector)\<close>: \<open>/([a-z]\.[a-z]|[a-z]\[.*\])/i\<close> matches somewhere.\<close>

fun isCompoundSelector :: "string \<Rightarrow> bool" where
  "isCompoundSelector (a # b # rest) =
     ((is_letter a \<and>
        ((b = CHR ''.'' \<and> (case rest of [] \<Rightarrow> False | c # _ \<Rightarrow> is_letter c)) \<or>
         (b = CHR ''['' \<and> dot_star_rbracket rest))) \<or>
      isCompoundSelector (b # rest))"
| "isCompoundSelector _ = False"

text \<open>The lookahead \<open>(?=\.|\[.*\])\<close> at the start of the rest of the string.\<close>

fun split_point :: "string \<Rightarrow> bool" where
  "split_point [] = False"
| "split_point (c # cs) = (c = CHR ''.'' \<or> (c = CHR ''['' \<and> dot_star_rbracket cs))"

text \<open>
  \<open>selector.split(/(?=\.|\[.*\])/)\<close>: the string is cut before every position where the
  lookahead matches, except where the piece cut off would be empty (an empty match at
  the start of the current piece moves on by one character). \<open>acc\<close> is the current
  piece.
\<close>

fun split_go :: "string \<Rightarrow> string \<Rightarrow> string list" where
  "split_go acc [] = [acc]"
| "split_go acc (c # cs) =
     (if split_point (c # cs) \<and> acc \<noteq> [] then acc # split_go [c] cs
      else split_go (acc @ [c]) cs)"

definition splitSelector :: "string \<Rightarrow> string list" where
  "splitSelector selector = split_go [] selector"

text \<open>\<open>AND(fns)\<close>: \<open>let i = fns.length; while (i--) { if (!fns[i](x)) return false; } return true\<close>.\<close>

fun AND_while :: "('a \<Rightarrow> bool) list \<Rightarrow> nat \<Rightarrow> 'a \<Rightarrow> bool" where
  "AND_while fns 0 x = True"
| "AND_while fns (Suc i) x = (if \<not> (fns ! i) x then False else AND_while fns i x)"

definition AND :: "('a \<Rightarrow> bool) list \<Rightarrow> 'a \<Rightarrow> bool" where
  "AND fns = (\<lambda>x. AND_while fns (length fns) x)"

text \<open>
  A selector as \<open>buildPredicate\<close> tells them apart by \<open>typeof\<close>: a function (a component
  constructor, known by its address), a string, or anything else.
\<close>

datatype selector = SelCtor nat | SelStr string | SelOther

text \<open>\<open>node.type === selector\<close> for a constructor at address \<open>f\<close>.\<close>

fun type_is_ctor :: "etype option \<Rightarrow> nat \<Rightarrow> bool" where
  "type_is_ctor (Some (Comp r _ _)) f = (r = f)"
| "type_is_ctor _ f = False"

text \<open>\<open>xs.map(f)\<close> where \<open>f\<close> may throw: the first exception ends the map.\<close>

fun collect :: "('e + 'a) list \<Rightarrow> 'e + 'a list" where
  "collect [] = Inr []"
| "collect (Inl e # xs) = Inl e"
| "collect (Inr v # xs) = (case collect xs of Inl e \<Rightarrow> Inl e | Inr vs \<Rightarrow> Inr (v # vs))"

fun has_split :: "string \<Rightarrow> bool" where
  "has_split [] = False"
| "has_split (c # cs) = (split_point (c # cs) \<or> has_split cs)"

lemma split_go_concat: "concat (split_go acc s) = acc @ s"
  by (induction s arbitrary: acc) auto

lemma split_go_nonempty: "split_go acc s \<noteq> []"
  by (induction s arbitrary: acc) auto

lemma split_go_pieces: "acc \<noteq> [] \<or> s \<noteq> [] \<Longrightarrow> [] \<notin> set (split_go acc s)"
  by (induction s arbitrary: acc) auto

lemma split_go_two: "acc \<noteq> [] \<Longrightarrow> has_split s \<Longrightarrow> 2 \<le> length (split_go acc s)"
proof (induction s arbitrary: acc)
  case Nil
  then show ?case by simp
next
  case (Cons c cs)
  show ?case
  proof (cases "split_point (c # cs)")
    case True
    have "1 \<le> length (split_go [c] cs)"
      using split_go_nonempty [of "[c]" cs] by (cases "split_go [c] cs") simp_all
    then show ?thesis using True Cons.prems(1) by (simp del: split_point.simps)
  next
    case False
    then have "has_split cs" using Cons.prems(2) by auto
    then have "2 \<le> length (split_go (acc @ [c]) cs)"
      by (intro Cons.IH) simp
    then show ?thesis using False by (simp del: split_point.simps)
  qed
qed

lemma piece_shorter:
  assumes "2 \<le> length fs" and "[] \<notin> set fs" and "f \<in> set fs"
  shows "length f < length (concat fs)"
proof -
  from assms(3) obtain us vs where fs: "fs = us @ f # vs"
    by (auto simp: in_set_conv_decomp)
  from assms(1) fs have "us \<noteq> [] \<or> vs \<noteq> []" by (cases us; cases vs) auto
  then have "concat us \<noteq> [] \<or> concat vs \<noteq> []"
    using assms(2) fs by (cases us; cases vs) auto
  then show ?thesis by (auto simp: fs)
qed

lemma isCompoundSelector_split:
  "isCompoundSelector s \<Longrightarrow> \<exists>c t. s = c # t \<and> has_split t"
proof (induction s rule: isCompoundSelector.induct)
  case (1 a b rest)
  then show ?case by (cases rest) auto
qed simp_all

lemma splitSelector_shorter:
  assumes "isCompoundSelector s" and "f \<in> set (splitSelector s)"
  shows "length f < length s"
proof -
  from assms(1) obtain c t where s: "s = c # t" and t: "has_split t"
    using isCompoundSelector_split by blast
  have eq: "splitSelector s = split_go [c] t"
    by (simp add: splitSelector_def s)
  have "2 \<le> length (split_go [c] t)"
    using t by (intro split_go_two) simp
  moreover have "[] \<notin> set (split_go [c] t)"
    by (intro split_go_pieces) simp
  ultimately have "length f < length (concat (split_go [c] t))"
    using assms(2) eq by (intro piece_shorter) simp_all
  then show ?thesis by (simp add: split_go_concat s)
qed

function buildPredicate :: "selector \<Rightarrow> error + (jsval \<Rightarrow> bool)" where
  "buildPredicate (SelCtor f) = Inr (\<lambda>node. truthy node \<and> type_is_ctor (type_of node) f)"
| "buildPredicate (SelStr selector) =
     (if \<not> isSimpleSelector selector then Inl (selectorError selector)
      else if isCompoundSelector selector then
        (case collect (map (\<lambda>s. buildPredicate (SelStr s)) (splitSelector selector)) of
           Inl e \<Rightarrow> Inl e
         | Inr fns \<Rightarrow> Inr (AND fns))
      else if take 1 selector = ''.'' then Inr (\<lambda>node. hasClassName node (drop 1 selector))
      else if take 1 selector = ''#'' then Inr (\<lambda>node. nodeHasId node (drop 1 selector))
      else Inr (\<lambda>node. nodeHasType node selector))"
| "buildPredicate SelOther = Inl SelectorTypeError"
  by pat_completeness auto
termination
  by (relation "measure (\<lambda>sel. case sel of SelStr s \<Rightarrow> length s | _ \<Rightarrow> 0)")
     (auto simp: splitSelector_shorter)

declare buildPredicate.simps(2) [simp del]


section \<open>Utils.js: structural equality\<close>

text \<open>
  \<open>x.length\<close>: arrays and strings have one, a plain object may store one; reading it
  off \<open>null\<close> or \<open>undefined\<close> is a \<open>TypeError\<close>. (The arity a function reports as its
  \<open>length\<close> is not modelled.)
\<close>

fun js_length :: "jsval \<Rightarrow> error + jsval" where
  "js_length JUndefined = Inl JsTypeError"
| "js_length JNull = Inl JsTypeError"
| "js_length (JArr _ xs) = Inr (JNum (int (length xs)))"
| "js_length (JStr s) = Inr (JNum (int (length s)))"
| "js_length (JObj _ fs) = Inr (get_prop fs ''length'')"
| "js_length _ = Inr JUndefined"

text \<open>\<open>x[i]\<close> for a number \<open>i\<close>.\<close>

fun js_index :: "jsval \<Rightarrow> nat \<Rightarrow> jsval" where
  "js_index (JArr _ xs) i = (if i < length xs then xs ! i else JUndefined)"
| "js_index (JStr s) i = (if i < length s then JStr [s ! i] else JUndefined)"
| "js_index (JObj _ fs) i = get_prop fs (digits i)"
| "js_index _ i = JUndefined"

text \<open>\<open>i < n\<close> for a loop counter and a length read off a value.\<close>

fun js_less :: "nat \<Rightarrow> jsval \<Rightarrow> bool" where
  "js_less i (JNum n) = (int i < n)"
| "js_less i _ = False"

text \<open>\<open>a.type !== b.type\<close> compares tag names by value and constructors by address.\<close>

fun type_strict_eq :: "etype option \<Rightarrow> etype option \<Rightarrow> bool" where
  "type_strict_eq None None = True"
| "type_strict_eq (Some (Tag s)) (Some (Tag t)) = (s = t)"
| "type_strict_eq (Some (Comp r _ _)) (Some (Comp r' _ _)) = (r = r')"
| "type_strict_eq _ _ = False"

lemma js_index_size: "jsize (js_index a i) \<le> jsize a"
proof (cases a)
  case (JArr r xs)
  have "i < length xs \<Longrightarrow> jsize (xs ! i) \<le> sum_list (map jsize xs)"
    by (simp add: member_le_sum_list)
  then show ?thesis using JArr by auto
next
  case (JObj r fs)
  then show ?thesis using get_prop_size [of fs "digits i"] by simp
qed auto

text \<open>
  \<open>nodeEqual\<close> and \<open>childrenEqual\<close>, with the two \<open>for\<close> loops as functions of their
  own. \<open>isEqual\<close> is underscore's deep comparison, a parameter here. The loop of
  \<open>nodeEqual\<close> runs over the entries of \<open>left\<close> in key order; \<open>left[prop]\<close> is the value
  of the entry. The loop of \<open>childrenEqual\<close> takes \<open>a.length\<close>, which it reads at
  every test, as \<open>la\<close>. An exception is \<open>Inl\<close>; it ends every loop it passes through.
\<close>

function nodeEqual :: "(jsval \<Rightarrow> jsval \<Rightarrow> bool) \<Rightarrow> jsval \<Rightarrow> jsval \<Rightarrow> error + bool"
  and nodeEqual_for :: "(jsval \<Rightarrow> jsval \<Rightarrow> bool) \<Rightarrow> props \<Rightarrow> props \<Rightarrow> error + bool"
  and childrenEqual :: "(jsval \<Rightarrow> jsval \<Rightarrow> bool) \<Rightarrow> jsval \<Rightarrow> jsval \<Rightarrow> error + bool"
  and childrenEqual_for :: "(jsval \<Rightarrow> jsval \<Rightarrow> bool) \<Rightarrow> jsval \<Rightarrow> jsval \<Rightarrow> jsval \<Rightarrow> nat \<Rightarrow> error + bool"
where
  "nodeEqual isEqual a b =
     (if strict_eq a b then Inr True
      else if \<not> truthy a \<or> \<not> truthy b then Inr False
      else if \<not> type_strict_eq (type_of a) (type_of b) then Inr False
      else
        case nodeEqual_for isEqual (propsOfNode a) (propsOfNode b) of
          Inl e \<Rightarrow> Inl e
        | Inr completed \<Rightarrow>
            if \<not> completed then Inr False
            else Inr (length (propsOfNode a) = length (propsOfNode b)))"
| "nodeEqual_for isEqual [] right = Inr True"
| "nodeEqual_for isEqual ((prop, lv) # rest) right =
     (if \<not> has_key right prop then Inr False
      else if prop = ''children'' then
        (case childrenEqual isEqual lv (get_prop right ''children'') of
           Inl e \<Rightarrow> Inl e
         | Inr r \<Rightarrow> if \<not> r then Inr False else nodeEqual_for isEqual rest right)
      else if strict_eq (get_prop right prop) lv then nodeEqual_for isEqual rest right
      else if typeof (get_prop right prop) = typeof lv \<and> typeof lv = TObject then
        (if \<not> isEqual lv (get_prop right prop) then Inr False
         else nodeEqual_for isEqual rest right)
      else Inr False)"
| "childrenEqual isEqual a b =
     (if strict_eq a b then Inr True
      else if \<not> isArray a \<and> \<not> isArray b then nodeEqual isEqual a b
      else if \<not> truthy a \<and> \<not> truthy b then Inr True
      else
        case js_length a of
          Inl e \<Rightarrow> Inl e
        | Inr la \<Rightarrow>
            (case js_length b of
               Inl e \<Rightarrow> Inl e
             | Inr lb \<Rightarrow>
                 if \<not> strict_eq la lb then Inr False
                 else if strict_eq la (JNum 0) \<and> strict_eq lb (JNum 0) then Inr True
                 else childrenEqual_for isEqual a b la 0))"
| "childrenEqual_for isEqual a b la i =
     (if js_less i la then
        (case nodeEqual isEqual (js_index a i) (js_index b i) of
           Inl e \<Rightarrow> Inl e
         | Inr r \<Rightarrow> if \<not> r then Inr False else childrenEqual_for isEqual a b la (Suc i))
      else Inr True)"
  by pat_completeness auto
termination
  apply (relation "measures [
     (\<lambda>x. case x of
        Inl (Inl (isEqual, a, b)) \<Rightarrow> 4 * jsize a + 1
      | Inl (Inr (isEqual, left, right)) \<Rightarrow> 4 * Suc (sum_list (map (\<lambda>kv. jsize (snd kv)) left))
      | Inr (Inl (isEqual, a, b)) \<Rightarrow> 4 * jsize a + 3
      | Inr (Inr (isEqual, a, b, la, i)) \<Rightarrow> 4 * jsize a + 2),
     (\<lambda>x. case x of
        Inr (Inr (isEqual, a, b, la, i)) \<Rightarrow> (case la of JNum n \<Rightarrow> nat n - i | _ \<Rightarrow> 0)
      | _ \<Rightarrow> 0)]")
  subgoal by simp
  subgoal for isEqual a b by (cases a) simp_all
  subgoal for isEqual k lv rest right using jsize_pos [of lv] by simp
  subgoal for isEqual k lv rest right x using jsize_pos [of lv] by simp
  subgoal for isEqual k lv rest right using jsize_pos [of lv] by simp
  subgoal for isEqual k lv rest right using jsize_pos [of lv] by simp
  subgoal by simp
  subgoal by simp
  subgoal for isEqual a b la i using js_index_size [of a i] by simp
  subgoal for isEqual a b la i x by (cases la) (auto)
  done


section \<open>ShallowWrapper.js\<close>

text \<open>
  A wrapper object with the fields the constructor sets. \<open>root_opt\<close> is \<open>None\<close> when
  \<open>this.root\<close> is the wrapper itself and otherwise holds the root wrapper; \<open>renderer\<close>
  is the shallow renderer of the root (\<open>null\<close> otherwise). The renderer, the component
  instance and \<open>React.cloneElement\<close> are React's: the operations used are the fields of
  \<open>react\<close>, over a renderer state \<open>'r\<close>.
\<close>

datatype 'r ShallowWrapper =
  ShallowWrapper
    (root_opt: "'r ShallowWrapper option")
    (unrendered: jsval)
    (renderer: "'r option")
    (node: jsval)
    (nodes: "jsval list")
    (length_w: nat)

record 'r react =
  createShallowRenderer :: 'r
  render :: "jsval \<Rightarrow> 'r \<Rightarrow> 'r"
  getRenderOutput :: "'r \<Rightarrow> jsval"
  instance_state :: "'r \<Rightarrow> jsval"
  instance_setState :: "jsval \<Rightarrow> 'r \<Rightarrow> 'r"
  cloneElement :: "jsval \<Rightarrow> jsval \<Rightarrow> jsval"

text \<open>\<open>this.root\<close> and \<open>this.root === this\<close>.\<close>

definition root :: "'r ShallowWrapper \<Rightarrow> 'r ShallowWrapper" where
  "root w = (case root_opt w of None \<Rightarrow> w | Some r \<Rightarrow> r)"

definition is_root :: "'r ShallowWrapper \<Rightarrow> bool" where
  "is_root w = (root_opt w = None)"

text \<open>The constructor without a root (\<open>shallow(node)\<close>): render and wrap the output.\<close>

definition new_root :: "'r react \<Rightarrow> jsval \<Rightarrow> 'r ShallowWrapper" where
  "new_root api ns =
     (let r = render api ns (createShallowRenderer api);
          n = getRenderOutput api r
      in ShallowWrapper None ns (Some r) n [n] 1)"

text \<open>
  The constructor with a root: an array is the node list, anything else (\<open>undefined\<close>
  too) is wrapped as the one node.
\<close>

definition new_child :: "jsval \<Rightarrow> 'r ShallowWrapper \<Rightarrow> 'r ShallowWrapper" where
  "new_child ns rt =
     (case ns of
        JArr _ xs \<Rightarrow> ShallowWrapper (Some rt) JNull None (js_index ns 0) xs (length xs)
      | _ \<Rightarrow> ShallowWrapper (Some rt) JNull None ns [ns] (length [ns]))"

text \<open>\<open>wrap(node)\<close>; the callers modelled here never pass a wrapper.\<close>

definition wrap :: "'r ShallowWrapper \<Rightarrow> jsval \<Rightarrow> 'r ShallowWrapper" where
  "wrap this n = new_child n (root this)"

text \<open>An array the code has just built: its address is never compared.\<close>

definition fresh_array :: "jsval list \<Rightarrow> jsval" where
  "fresh_array xs = JArr 0 xs"

definition single :: "'r ShallowWrapper \<Rightarrow> (jsval \<Rightarrow> error + 'a) \<Rightarrow> error + 'a" where
  "single this fn =
     (if length_w this \<noteq> 1 then Inl (NotSingle (length_w this)) else fn (node this))"

text \<open>underscore's \<open>compact\<close>, \<open>flatten(_, true)\<close> and \<open>unique\<close>.\<close>

definition compact :: "jsval list \<Rightarrow> jsval list" where
  "compact xs = filter truthy xs"

definition flatten_shallow :: "jsval list \<Rightarrow> jsval list" where
  "flatten_shallow vs = concat (map (\<lambda>v. case v of JArr _ xs \<Rightarrow> xs | _ \<Rightarrow> [v]) vs)"

fun unique_go :: "jsval list \<Rightarrow> jsval list \<Rightarrow> jsval list" where
  "unique_go result [] = result"
| "unique_go result (v # vs) =
     (if list_ex (strict_eq v) result then unique_go result vs
      else unique_go (result @ [v]) vs)"

definition unique :: "jsval list \<Rightarrow> jsval list" where
  "unique xs = unique_go [] xs"

definition filterWhere :: "'r ShallowWrapper \<Rightarrow> (jsval \<Rightarrow> bool) \<Rightarrow> 'r ShallowWrapper" where
  "filterWhere this predicate = wrap this (fresh_array (compact (filter predicate (nodes this))))"

definition filter_w :: "'r ShallowWrapper \<Rightarrow> selector \<Rightarrow> error + 'r ShallowWrapper" where
  "filter_w this sel =
     (case buildPredicate sel of
        Inl e \<Rightarrow> Inl e
      | Inr predicate \<Rightarrow> Inr (filterWhere this predicate))"

definition not_w :: "'r ShallowWrapper \<Rightarrow> selector \<Rightarrow> error + 'r ShallowWrapper" where
  "not_w this sel =
     (case buildPredicate sel of
        Inl e \<Rightarrow> Inl e
      | Inr predicate \<Rightarrow> Inr (filterWhere this (\<lambda>n. \<not> predicate n)))"

definition is_w :: "'r ShallowWrapper \<Rightarrow> selector \<Rightarrow> error + bool" where
  "is_w this sel =
     (case buildPredicate sel of
        Inl e \<Rightarrow> Inl e
      | Inr predicate \<Rightarrow> single this (\<lambda>n. Inr (predicate n)))"

text \<open>\<open>this.nodes.map((n, i) => fn.call(this, this.wrap(n), i))\<close>, where \<open>fn\<close> may throw.\<close>

fun map_nodes ::
  "'r ShallowWrapper \<Rightarrow> ('r ShallowWrapper \<Rightarrow> nat \<Rightarrow> error + 'a) \<Rightarrow> jsval list \<Rightarrow> nat \<Rightarrow> error + 'a list"
where
  "map_nodes this fn [] i = Inr []"
| "map_nodes this fn (n # ns) i =
     (case fn (wrap this n) i of
        Inl e \<Rightarrow> Inl e
      | Inr v \<Rightarrow> (case map_nodes this fn ns (Suc i) of Inl e \<Rightarrow> Inl e | Inr vs \<Rightarrow> Inr (v # vs)))"

definition flatMap ::
  "'r ShallowWrapper \<Rightarrow> ('r ShallowWrapper \<Rightarrow> nat \<Rightarrow> error + jsval) \<Rightarrow> error + 'r ShallowWrapper"
where
  "flatMap this fn =
     (case map_nodes this fn (nodes this) 0 of
        Inl e \<Rightarrow> Inl e
      | Inr ns \<Rightarrow>
          (let flattened = flatten_shallow ns;
               uniques = unique flattened
           in Inr (wrap this (fresh_array uniques))))"

definition findWhere :: "'r ShallowWrapper \<Rightarrow> (jsval \<Rightarrow> bool) \<Rightarrow> error + 'r ShallowWrapper" where
  "findWhere this predicate =
     flatMap this (\<lambda>n i. Inr (fresh_array (treeFilter (node n) predicate)))"

text \<open>
  An optional selector argument is used when it is given and truthy; a given value that
  is neither a function nor a string is taken to be truthy.
\<close>

fun selector_given :: "selector option \<Rightarrow> bool" where
  "selector_given None = False"
| "selector_given (Some (SelStr s)) = (s \<noteq> [])"
| "selector_given (Some _) = True"

definition children_w :: "'r ShallowWrapper \<Rightarrow> selector option \<Rightarrow> error + 'r ShallowWrapper" where
  "children_w this sel =
     (case flatMap this (\<lambda>n i. Inr (fresh_array (childrenOfNode (node n)))) of
        Inl e \<Rightarrow> Inl e
      | Inr allChildren \<Rightarrow>
          if selector_given sel then filter_w allChildren (the sel) else Inr allChildren)"

definition parents :: "'r ShallowWrapper \<Rightarrow> selector option \<Rightarrow> error + 'r ShallowWrapper" where
  "parents this sel =
     (case single this (\<lambda>n. parentsOfNode n (node (root this))) of
        Inl e \<Rightarrow> Inl e
      | Inr ps \<Rightarrow>
          (let allParents = wrap this (fresh_array ps)
           in if selector_given sel then filter_w allParents (the sel) else Inr allParents))"

text \<open>\<open>this.nodes[index]\<close>: \<open>undefined\<close> outside the array.\<close>

definition nodes_at :: "'r ShallowWrapper \<Rightarrow> int \<Rightarrow> jsval" where
  "nodes_at this index =
     (if 0 \<le> index \<and> index < int (length (nodes this)) then nodes this ! nat index
      else JUndefined)"

definition get_w :: "'r ShallowWrapper \<Rightarrow> int \<Rightarrow> 'r ShallowWrapper" where
  "get_w this index = wrap this (nodes_at this index)"

definition first :: "'r ShallowWrapper \<Rightarrow> 'r ShallowWrapper" where
  "first this = get_w this 0"

definition last_w :: "'r ShallowWrapper \<Rightarrow> 'r ShallowWrapper" where
  "last_w this = get_w this (int (length_w this) - 1)"

definition closest :: "'r ShallowWrapper \<Rightarrow> selector \<Rightarrow> error + 'r ShallowWrapper" where
  "closest this sel =
     (case is_w this sel of
        Inl e \<Rightarrow> Inl e
      | Inr matches \<Rightarrow>
          if matches then Inr this
          else
            (case parents this None of
               Inl e \<Rightarrow> Inl e
             | Inr ps \<Rightarrow>
                 (case filter_w ps sel of Inl e \<Rightarrow> Inl e | Inr fs \<Rightarrow> Inr (first fs))))"

text \<open>
  The methods that change the wrapper return the exception, if any, and the wrapper as
  the call leaves it. \<open>withSetStateAllowed\<close> only sets and removes \<open>global.document\<close>
  around its argument.
\<close>

definition update :: "'r react \<Rightarrow> 'r ShallowWrapper \<Rightarrow> error option \<times> 'r ShallowWrapper" where
  "update api this =
     (if \<not> is_root this then (Some (RootOnly ''update''), this)
      else if length_w this \<noteq> 1 then (Some (NotSingle (length_w this)), this)
      else
        case renderer this of
          None \<Rightarrow> (Some JsTypeError, this)
        | Some r \<Rightarrow>
            (let n = getRenderOutput api r
             in (None, ShallowWrapper (root_opt this) (unrendered this) (renderer this) n [n]
                         (length_w this))))"

definition setProps ::
  "'r react \<Rightarrow> 'r ShallowWrapper \<Rightarrow> jsval \<Rightarrow> error option \<times> 'r ShallowWrapper"
where
  "setProps api this ps =
     (if \<not> is_root this then (Some (RootOnly ''setProps''), this)
      else if length_w this \<noteq> 1 then (Some (NotSingle (length_w this)), this)
      else
        case renderer this of
          None \<Rightarrow> (Some JsTypeError, this)
        | Some r \<Rightarrow>
            update api
              (ShallowWrapper (root_opt this) (unrendered this)
                 (Some (render api (cloneElement api (unrendered this) ps) r))
                 (node this) (nodes this) (length_w this)))"

definition setState ::
  "'r react \<Rightarrow> 'r ShallowWrapper \<Rightarrow> jsval \<Rightarrow> error option \<times> 'r ShallowWrapper"
where
  "setState api this st =
     (if \<not> is_root this then (Some (RootOnly ''setState''), this)
      else if length_w this \<noteq> 1 then (Some (NotSingle (length_w this)), this)
      else
        case renderer this of
          None \<Rightarrow> (Some JsTypeError, this)
        | Some r \<Rightarrow>
            update api
              (ShallowWrapper (root_opt this) (unrendered this)
                 (Some (instance_setState api st r))
                 (node this) (nodes this) (length_w this)))"

text \<open>\<open>obj[name]\<close> on the state object.\<close>

fun js_get :: "jsval \<Rightarrow> string \<Rightarrow> error + jsval" where
  "js_get JUndefined name = Inl JsTypeError"
| "js_get JNull name = Inl JsTypeError"
| "js_get (JObj _ fs) name = Inr (get_prop fs name)"
| "js_get _ name = Inr JUndefined"

definition state :: "'r react \<Rightarrow> 'r ShallowWrapper \<Rightarrow> string option \<Rightarrow> error + jsval" where
  "state api this name =
     (if \<not> is_root this then Inl (RootOnly ''state'')
      else
        case single this (\<lambda>_. case renderer this of
                                None \<Rightarrow> Inl JsTypeError
                              | Some r \<Rightarrow> Inr (instance_state api r)) of
          Inl e \<Rightarrow> Inl e
        | Inr st \<Rightarrow> (case name of None \<Rightarrow> Inr st | Some k \<Rightarrow> js_get st k))"

definition find_w :: "'r ShallowWrapper \<Rightarrow> selector \<Rightarrow> error + 'r ShallowWrapper" where
  "find_w this sel =
     (case buildPredicate sel of
        Inl e \<Rightarrow> Inl e
      | Inr predicate \<Rightarrow> findWhere this predicate)"

text \<open>
  react-compat.js, for an element whose type is a tag name: the compatible renderer
  keeps the element (\<open>_node = node\<close>) and \<open>getRenderOutput\<close> returns it. Such an
  element has no component instance, hence no state. This backend only supplies the
  sample wrappers; nothing proved of them depends on the identity of the render output
  or on the state. \<open>React.cloneElement\<close> copies the
  element with the new props laid over the old ones; the copy is a new object (here at
  the next address).
\<close>

fun assign :: "props \<Rightarrow> props \<Rightarrow> props" where
  "assign ps [] = ps"
| "assign ps ((k, v) # rest) =
     assign (if has_key ps k then map (\<lambda>kv. if fst kv = k then (k, v) else kv) ps
             else ps @ [(k, v)]) rest"

fun dom_cloneElement :: "jsval \<Rightarrow> jsval \<Rightarrow> jsval" where
  "dom_cloneElement (JElem r t ps) (JObj _ new) = JElem (Suc r) t (assign ps new)"
| "dom_cloneElement e _ = e"

definition dom_react :: "jsval react" where
  "dom_react =
     \<lparr> createShallowRenderer = JUndefined,
       render = (\<lambda>n r. n),
       getRenderOutput = (\<lambda>r. r),
       instance_state = (\<lambda>r. JUndefined),
       instance_setState = (\<lambda>st r. r),
       cloneElement = dom_cloneElement \<rparr>"

text \<open>\<open>shallow(node)\<close> for such an element.\<close>

definition shallow :: "jsval \<Rightarrow> jsval ShallowWrapper" where
  "shallow n = new_root dom_react n"

section \<open>What the specification speaks of\<close>

text \<open>
  The notions the specification uses to say what the operations return, defined on the
  tree that \<open>childrenOfNode\<close> spans: the nodes in pre-order; the ancestors of a node,
  from the root down to its parent; the space-delimited tokens of a string; a list
  without two identical (\<open>===\<close>) entries.
\<close>

function preorder :: "jsval \<Rightarrow> jsval list" where
  "preorder t = t # concat (map preorder (childrenOfNode t))"
  by pat_completeness auto
termination
  by (relation "measure jsize") (auto simp: childrenOfNode_member_size)

declare preorder.simps [simp del]

fun first_some :: "'a option list \<Rightarrow> 'a option" where
  "first_some [] = None"
| "first_some (None # xs) = first_some xs"
| "first_some (Some x # xs) = Some x"

function ancestors :: "jsval \<Rightarrow> jsval \<Rightarrow> jsval list option" where
  "ancestors target t =
     (if strict_eq t target then Some []
      else case first_some (map (ancestors target) (childrenOfNode t)) of
             None \<Rightarrow> None
           | Some p \<Rightarrow> Some (t # p))"
  by pat_completeness auto
termination
  by (relation "measure (\<lambda>(target, t). jsize t)") (auto simp: childrenOfNode_member_size)

declare ancestors.simps [simp del]

fun tokens :: "string \<Rightarrow> string list" where
  "tokens [] = [[]]"
| "tokens (c # cs) =
     (if c = CHR '' '' then [] # tokens cs
      else case tokens cs of t # ts \<Rightarrow> (c # t) # ts | [] \<Rightarrow> [[c]])"

fun distinct_identity :: "jsval list \<Rightarrow> bool" where
  "distinct_identity [] = True"
| "distinct_identity (x # xs) = (\<not> list_ex (strict_eq x) xs \<and> distinct_identity xs)"

section \<open>Sample trees\<close>

text \<open>
  \<^verbatim>\<open><div className="foo">
    <div className="a"><span className="t" /></div>
    <div className="foo b"><i /></div>
  </div>\<close>
\<close>

definition t_target :: jsval where
  "t_target = JElem 3 (Tag ''span'') [(''className'', JStr ''t'')]"

definition t_A :: jsval where
  "t_A = JElem 2 (Tag ''div'') [(''className'', JStr ''a''), (''children'', t_target)]"

definition t_i :: jsval where
  "t_i = JElem 5 (Tag ''i'') []"

definition t_B :: jsval where
  "t_B = JElem 4 (Tag ''div'') [(''className'', JStr ''foo b''), (''children'', t_i)]"

definition t_root :: jsval where
  "t_root = JElem 1 (Tag ''div'')
     [(''className'', JStr ''foo''), (''children'', JArr 6 [t_A, t_B])]"

text \<open>\<^verbatim>\<open><div id="x">{null}</div>\<close> and \<^verbatim>\<open><div><a /><b /></div>\<close>.\<close>

definition e_null_child :: jsval where
  "e_null_child = JElem 1 (Tag ''div'') [(''id'', JStr ''x''), (''children'', JNull)]"

definition e_two_children :: jsval where
  "e_two_children = JElem 2 (Tag ''div'')
     [(''children'', JArr 5 [JElem 3 (Tag ''a'') [], JElem 4 (Tag ''b'') []])]"

text \<open>\<^verbatim>\<open><div>{0}<span /></div>\<close> and \<^verbatim>\<open><div>{'a'}{'a'}</div>\<close>.\<close>

definition e_hole :: jsval where
  "e_hole = JElem 1 (Tag ''div'') [(''children'', JArr 3 [JNum 0, JElem 2 (Tag ''span'') []])]"

definition e_twice :: jsval where
  "e_twice = JElem 1 (Tag ''div'') [(''children'', JArr 2 [JStr ''a'', JStr ''a''])]"

text \<open>The children of the third sample, as \<open>children()\<close> of its root wrapper returns them.\<close>

definition hole_children :: "jsval ShallowWrapper" where
  "hole_children = wrap (shallow e_hole) (fresh_array [JNum 0, JElem 2 (Tag ''span'') []])"

text \<open>\<^verbatim>\<open><div className="col-md-6 active" />\<close> and \<^verbatim>\<open><h1 className="foo" />\<close>.\<close>

definition e_grid :: jsval where
  "e_grid = JElem 1 (Tag ''div'') [(''className'', JStr ''col-md-6 active'')]"

definition e_h1 :: jsval where
  "e_h1 = JElem 1 (Tag ''h1'') [(''className'', JStr ''foo'')]"

section \<open>Auxiliary facts\<close>

lemma strict_eq_refl: "strict_eq v v"
  by (cases v) simp_all

lemma strict_eq_sym: "strict_eq a b = strict_eq b a"
  by (cases a; cases b) auto

lemma collect_Inr: "collect ys = Inr vs \<Longrightarrow> ys = map Inr vs"
  by (induction ys arbitrary: vs rule: collect.induct) (auto split: sum.splits)

lemma collect_total: "\<forall>y\<in>set ys. \<exists>v. y = Inr v \<Longrightarrow> \<exists>vs. collect ys = Inr vs"
  by (induction ys rule: collect.induct) auto

lemma AND_while_conj: "i \<le> length fns \<Longrightarrow> AND_while fns i x \<longleftrightarrow> (\<forall>j<i. (fns ! j) x)"
  by (induction i) (auto simp: less_Suc_eq)

lemma AND_conj: "AND fns x \<longleftrightarrow> (\<forall>f\<in>set fns. f x)"
  by (simp add: AND_def AND_while_conj all_set_conv_all_nth)

lemma fragment_chars: "f \<in> set (splitSelector s) \<Longrightarrow> set f \<subseteq> set s"
proof -
  assume "f \<in> set (splitSelector s)"
  then have "set f \<subseteq> set (concat (splitSelector s))" by auto
  then show ?thesis by (simp add: splitSelector_def split_go_concat)
qed

lemma fragment_simple:
  "isSimpleSelector s \<Longrightarrow> f \<in> set (splitSelector s) \<Longrightarrow> isSimpleSelector f"
  using fragment_chars [of f s] by (auto simp: isSimpleSelector_def list_ex_iff)

lemma simple_compiles: "isSimpleSelector s \<Longrightarrow> \<exists>p. buildPredicate (SelStr s) = Inr p"
proof (induction s rule: length_induct)
  case (1 s)
  show ?case
  proof (cases "isCompoundSelector s")
    case False
    then show ?thesis using 1(2) by (simp add: buildPredicate.simps(2))
  next
    case True
    have "\<exists>p. buildPredicate (SelStr f) = Inr p" if "f \<in> set (splitSelector s)" for f
    proof -
      have "length f < length s" using True that by (rule splitSelector_shorter)
      moreover have "isSimpleSelector f" using 1(2) that by (rule fragment_simple)
      ultimately show ?thesis using 1(1) by blast
    qed
    then have "\<forall>y\<in>set (map (\<lambda>f. buildPredicate (SelStr f)) (splitSelector s)). \<exists>v. y = Inr v"
      by auto
    then obtain qs where "collect (map (\<lambda>f. buildPredicate (SelStr f)) (splitSelector s)) = Inr qs"
      using collect_total by blast
    then show ?thesis using True 1(2) by (simp add: buildPredicate.simps(2))
  qed
qed

lemma compact_filter_complement:
  "length (compact (filter p xs)) + length (compact (filter (\<lambda>n. \<not> p n) xs)) = length (compact xs)"
  by (induction xs) (auto simp: compact_def)

lemma wrap_fresh_array:
  "nodes (wrap w (fresh_array xs)) = xs" "length_w (wrap w (fresh_array xs)) = length xs"
  by (simp_all add: wrap_def fresh_array_def new_child_def)

lemma fold_treeForEach_push:
  assumes "\<And>c s. c \<in> set cs \<Longrightarrow> treeForEach c fn s = s @ filter p (preorder c)"
  shows "fold (\<lambda>node. treeForEach node fn) cs s = s @ filter p (concat (map preorder cs))"
  using assms by (induction cs arbitrary: s) simp_all

lemma treeForEach_push:
  "treeForEach t (\<lambda>node results. if p node then results @ [node] else results) s
     = s @ filter p (preorder t)"
proof (induction t arbitrary: s rule: preorder.induct)
  case (1 t)
  show ?case
    apply (subst treeForEach.simps)
    apply (subst preorder.simps)
    apply (subst fold_treeForEach_push [where p = p])
     apply (rule 1)
     apply assumption
    apply simp
    done
qed

lemma treeFilter_preorder: "treeFilter t p = filter p (preorder t)"
  by (simp add: treeFilter_def treeForEach_push)

lemma unique_go_distinct:
  "distinct_identity xs \<Longrightarrow> \<forall>x\<in>set xs. \<not> list_ex (strict_eq x) result \<Longrightarrow>
     unique_go result xs = result @ xs"
proof (induction xs arbitrary: result)
  case Nil
  then show ?case by simp
next
  case (Cons v vs)
  have "\<forall>x\<in>set vs. \<not> list_ex (strict_eq x) (result @ [v])"
    using Cons.prems by (auto simp: list_ex_iff strict_eq_sym [of _ v])
  then have "unique_go (result @ [v]) vs = (result @ [v]) @ vs"
    using Cons.prems by (intro Cons.IH) simp_all
  then show ?case using Cons.prems by simp
qed

lemma unique_distinct: "distinct_identity xs \<Longrightarrow> unique xs = xs"
  using unique_go_distinct [of xs "[]"] by (simp add: unique_def)

lemma unique_go_prefix: "prefix result (unique_go result xs)"
proof (induction xs arbitrary: result)
  case Nil
  then show ?case by simp
next
  case (Cons v vs)
  have "prefix (result @ [v]) (unique_go (result @ [v]) vs)" by (rule Cons.IH)
  then have "prefix result (unique_go (result @ [v]) vs)" by (rule append_prefixD)
  then show ?case using Cons.IH [of result] by simp
qed

lemma unique_Cons: "\<exists>ys. unique (x # xs) = x # ys"
  using unique_go_prefix [of "[x]" xs] by (auto simp: unique_def prefix_def)

lemma indexOf_range: "indexOf h n \<ge> - 1"
  by (induction h) (auto simp: Let_def)

lemma indexOf_sublist: "indexOf h n > - 1 \<longleftrightarrow> sublist n h"
proof (induction h)
  case Nil
  then show ?case by simp
next
  case (Cons c cs)
  show ?case
  proof (cases "prefix n (c # cs)")
    case True
    then show ?thesis by (simp add: sublist_Cons_right)
  next
    case False
    have "indexOf (c # cs) n > - 1 \<longleftrightarrow> indexOf cs n > - 1"
      using False indexOf_range [of cs n] by (auto simp: Let_def)
    then show ?thesis using False Cons by (simp add: sublist_Cons_right)
  qed
qed

lemma tokens_nonempty: "tokens s \<noteq> []"
  by (induction s) (auto split: list.splits)

lemma hd_tokens:
  "CHR '' '' \<notin> set c \<Longrightarrow> prefix (c @ '' '') (s @ '' '') \<longleftrightarrow> c = hd (tokens s)"
proof (induction s arbitrary: c)
  case Nil
  then show ?case by (cases c) auto
next
  case (Cons x xs)
  show ?case
  proof (cases c)
    case Nil
    then show ?thesis using tokens_nonempty [of xs] by (auto split: list.splits)
  next
    case (Cons y c')
    then have "CHR '' '' \<notin> set c'" and "y \<noteq> CHR '' ''" using Cons.prems by auto
    then show ?thesis
      using Cons.IH [of c'] Cons tokens_nonempty [of xs] by (auto split: list.splits)
  qed
qed

lemma tl_tokens:
  "CHR '' '' \<notin> set c \<Longrightarrow> sublist ('' '' @ c @ '' '') (s @ '' '') \<longleftrightarrow> c \<in> set (tl (tokens s))"
proof (induction s)
  case Nil
  then show ?case by (auto simp: sublist_Cons_right)
next
  case (Cons x xs)
  have t: "tokens xs = hd (tokens xs) # tl (tokens xs)"
    using tokens_nonempty [of xs] by simp
  show ?case
  proof (cases "x = CHR '' ''")
    case True
    have "sublist ('' '' @ c @ '' '') ((x # xs) @ '' '')
            \<longleftrightarrow> prefix (c @ '' '') (xs @ '' '') \<or> sublist ('' '' @ c @ '' '') (xs @ '' '')"
      using True by (simp add: sublist_Cons_right)
    also have "\<dots> \<longleftrightarrow> c = hd (tokens xs) \<or> c \<in> set (tl (tokens xs))"
      using Cons.IH [OF Cons.prems] hd_tokens [OF Cons.prems, of xs] by blast
    also have "\<dots> \<longleftrightarrow> c \<in> set (tokens xs)"
      by (subst (3) t) auto
    finally show ?thesis using True by simp
  next
    case False
    have "sublist ('' '' @ c @ '' '') ((x # xs) @ '' '')
            \<longleftrightarrow> sublist ('' '' @ c @ '' '') (xs @ '' '')"
      using False by (simp add: sublist_Cons_right)
    also have "\<dots> \<longleftrightarrow> c \<in> set (tl (tokens xs))"
      by (rule Cons.IH [OF Cons.prems])
    finally show ?thesis using False by (subst (asm) t) (auto split: list.splits)
  qed
qed

lemma token_search:
  assumes "CHR '' '' \<notin> set c"
  shows "indexOf ('' '' @ s @ '' '') ('' '' @ c @ '' '') > - 1 \<longleftrightarrow> c \<in> set (tokens s)"
proof -
  have t: "tokens s = hd (tokens s) # tl (tokens s)"
    using tokens_nonempty [of s] by simp
  have "indexOf ('' '' @ s @ '' '') ('' '' @ c @ '' '') > - 1
          \<longleftrightarrow> sublist ('' '' @ c @ '' '') ('' '' @ s @ '' '')"
    by (rule indexOf_sublist)
  also have "\<dots> \<longleftrightarrow> prefix (c @ '' '') (s @ '' '') \<or> sublist ('' '' @ c @ '' '') (s @ '' '')"
    by (simp add: sublist_Cons_right)
  also have "\<dots> \<longleftrightarrow> c = hd (tokens s) \<or> c \<in> set (tl (tokens s))"
    using hd_tokens [OF assms, of s] tl_tokens [OF assms, of s] by blast
  also have "\<dots> \<longleftrightarrow> c \<in> set (tokens s)"
    by (subst (3) t) auto
  finally show ?thesis .
qed

section \<open>The claims\<close>

text \<open>
  C1. \<open>pathToNode(target, root)\<close> is to return exactly the ancestors of \<open>target\<close>, from
  \<open>root\<close> down to the parent of \<open>target\<close>. The loop pops a leaf off \<open>path\<close> at once, but
  an inner node stays on \<open>path\<close> after its subtree has been searched: in the first
  sample tree the search visits the second child of the root (which has a child of its
  own) before the first, and that node stays in the result although the target is not
  below it. The ancestors are the root and its first child.
\<close>

theorem pathToNode_keeps_searched_subtree:
  "pathToNode t_target t_root = Some [t_root, t_B, t_A] \<and>
   ancestors t_target t_root = Some [t_root, t_A]"
  by code_simp

text \<open>
  C2. \<open>filter(sel)\<close> and \<open>not(sel)\<close> are to split the collection: their lengths add up to
  its length. Both go through \<open>filterWhere\<close>, which passes the kept nodes through
  \<open>compact\<close>; a falsy node (\<open>null\<close>, \<open>undefined\<close>, \<open>false\<close>, \<open>0\<close>, the empty string)
  is in neither result. The children of \<^verbatim>\<open><div>{0}<span /></div>\<close> are
  the number \<open>0\<close> and the span: two nodes, none in \<open>filter('.x')\<close>, one in
  \<open>not('.x')\<close>.
\<close>

theorem filter_not_lose_falsy_node:
  "children_w (shallow e_hole) None = Inr hole_children \<and>
   nodes hole_children = [JNum 0, JElem 2 (Tag ''span'') []] \<and>
   length_w hole_children = 2 \<and>
   map_sum id length_w (filter_w hole_children (SelStr ''.x'')) = Inr 0 \<and>
   map_sum id length_w (not_w hole_children (SelStr ''.x'')) = Inr 1"
  by code_simp

text \<open>
  C2, as the code has it: for a selector that compiles, the lengths of \<open>filter(sel)\<close>
  and \<open>not(sel)\<close> add up to the number of truthy nodes of the collection, which is its
  length when all its nodes are truthy.
\<close>

theorem filter_not_complement:
  "buildPredicate sel = Inr p \<Longrightarrow>
     \<exists>f n. filter_w C sel = Inr f \<and> not_w C sel = Inr n \<and>
       length_w f + length_w n = length (compact (nodes C)) \<and>
       (list_all truthy (nodes C) \<and> length_w C = length (nodes C)
          \<longrightarrow> length_w f + length_w n = length_w C)"
proof -
  assume p: "buildPredicate sel = Inr p"
  have c: "list_all truthy xs \<Longrightarrow> compact xs = xs" for xs
    by (simp add: compact_def list_all_iff)
  show ?thesis
    using compact_filter_complement [of p "nodes C"] c [of "nodes C"]
    by (auto simp: filter_w_def not_w_def p filterWhere_def wrap_fresh_array)
qed

theorem filter_not_complement_witness:
  "buildPredicate (SelStr ''.foo'') = Inr (\<lambda>n. hasClassName n ''foo'') \<and>
   list_all truthy (nodes (wrap (shallow t_root) (fresh_array [t_A, t_B]))) \<and>
   length_w (wrap (shallow t_root) (fresh_array [t_A, t_B])) = 2 \<and>
   (\<exists>f n. filter_w (wrap (shallow t_root) (fresh_array [t_A, t_B])) (SelStr ''.foo'') = Inr f \<and>
          not_w (wrap (shallow t_root) (fresh_array [t_A, t_B])) (SelStr ''.foo'') = Inr n \<and>
          length_w f + length_w n = 2)"
proof -
  let ?C = "wrap (shallow t_root) (fresh_array [t_A, t_B])"
  have a: "buildPredicate (SelStr ''.foo'') = Inr (\<lambda>n. hasClassName n ''foo'')"
    by (simp add: buildPredicate.simps(2) isSimpleSelector_def complex_char_def is_space_def)
  have b: "list_all truthy (nodes ?C)"
    by (simp add: wrap_fresh_array t_A_def t_B_def)
  have c: "length_w ?C = 2" "length_w ?C = length (nodes ?C)"
    by (simp_all add: wrap_fresh_array)
  show ?thesis
    using a b c filter_not_complement [OF a, of ?C] by auto
qed

text \<open>
  C3. A string selector with white space, \<open>:\<close>, \<open>>\<close> or \<open>~\<close> is refused with the
  \<open>TypeError\<close> that quotes it. An attribute-bracket selector is not refused by that
  test: \<open>[attr]\<close> has none of those characters, is not compound, and compiles to the
  comparison of the node's type with the string \<open>[attr]\<close>.
\<close>

theorem bracket_selector_compiles:
  "buildPredicate (SelStr ''[attr]'') = Inr (\<lambda>node. nodeHasType node ''[attr]'')"
  by (simp add: buildPredicate.simps(2) isSimpleSelector_def complex_char_def is_space_def)

text \<open>
  C3, as the code has it: a string selector is refused, with the error that quotes it,
  when it has one of the characters of \<open>/[~\s:>]/\<close>, and every other string selector
  compiles.
\<close>

theorem complex_selector_throws:
  "(list_ex complex_char s \<longrightarrow> buildPredicate (SelStr s) = Inl (SelectorError s)) \<and>
   (\<not> list_ex complex_char s \<longrightarrow> (\<exists>p. buildPredicate (SelStr s) = Inr p))"
  using simple_compiles [of s]
  by (auto simp: buildPredicate.simps(2) isSimpleSelector_def selectorError_def)

theorem complex_selector_throws_witness:
  "list_ex complex_char ''.foo .bar'' \<and>
   buildPredicate (SelStr ''.foo .bar'') = Inl (SelectorError ''.foo .bar'') \<and>
   list_ex complex_char ''a>b'' \<and>
   buildPredicate (SelStr ''a>b'') = Inl (SelectorError ''a>b'') \<and>
   \<not> list_ex complex_char ''div[attr]'' \<and>
   (\<exists>p. buildPredicate (SelStr ''div[attr]'') = Inr p)"
proof -
  have a: "list_ex complex_char ''.foo .bar''"
    by (simp add: complex_char_def is_space_def)
  have b: "list_ex complex_char ''a>b''"
    by (simp add: complex_char_def is_space_def)
  have c: "\<not> list_ex complex_char ''div[attr]''"
    by (simp add: complex_char_def is_space_def)
  show ?thesis
    using a b c complex_selector_throws [of "''.foo .bar''"]
      complex_selector_throws [of "''a>b''"] complex_selector_throws [of "''div[attr]''"]
    by blast
qed

text \<open>
  C4. \<open>closest(selector)\<close> returns the wrapper itself when its node matches, and
  otherwise the first match among \<open>parents()\<close>. As \<open>parents()\<close> is computed by
  \<open>pathToNode\<close>, a node that is no ancestor can be the answer: for the node found by
  \<open>find('.t')\<close> in the first sample tree, \<open>closest('.foo')\<close> is the second child of the
  root, while the only ancestor with the class \<open>foo\<close> is the root.
\<close>

theorem closest_returns_non_ancestor:
  "find_w (shallow t_root) (SelStr ''.t'') = Inr (wrap (shallow t_root) (fresh_array [t_target])) \<and>
   closest (wrap (shallow t_root) (fresh_array [t_target])) (SelStr ''.foo'')
     = Inr (wrap (shallow t_root) t_B) \<and>
   map_option rev (ancestors t_target t_root) = Some [t_A, t_root] \<and>
   hasClassName t_A ''foo'' = False \<and> hasClassName t_root ''foo'' = True"
  by code_simp

lemma closest_self: "is_w w sel = Inr True \<Longrightarrow> closest w sel = Inr w"
  by (simp add: closest_def)

text \<open>
  C5. \<open>nodeEqual\<close> is to be reflexive and symmetric, also where one \<open>children\<close> prop is
  a single child and the other a list. \<open>childrenEqual\<close> reads \<open>length\<close> off both values
  once one of them is an array, which throws a \<open>TypeError\<close> when the other is \<open>null\<close>.
  With \<^verbatim>\<open><div id="x">{null}</div>\<close> on the left the loop over the left keys
  returns \<open>false\<close> at \<open>id\<close>, before \<open>children\<close> is compared; with it on the right the
  only left key is \<open>children\<close> and the comparison throws.
\<close>

theorem nodeEqual_null_child_asymmetric:
  "nodeEqual isEqual e_null_child e_two_children = Inr False \<and>
   nodeEqual isEqual e_two_children e_null_child = Inl JsTypeError"
  by (simp add: e_null_child_def e_two_children_def has_key_def get_prop_def)

lemma nodeEqual_refl: "nodeEqual isEqual n n = Inr True"
  by (simp add: strict_eq_refl)

text \<open>
  C6. \<open>findWhere(() => true)\<close> on the root wrapper is to return all \<open>n\<close> nodes of the
  tree in pre-order. \<open>findWhere\<close> goes through \<open>flatMap\<close>, which removes duplicates with
  \<open>unique\<close>: a node identical (\<open>===\<close>) to an earlier one is dropped. Text leaves are
  compared by value, so of the three nodes of \<^verbatim>\<open><div>{'a'}{'a'}</div>\<close> two are
  returned.
\<close>

theorem findWhere_true_drops_repeated_leaf:
  "map_sum id nodes (findWhere (shallow e_twice) (\<lambda>n. True)) = Inr [e_twice, JStr ''a''] \<and>
   preorder e_twice = [e_twice, JStr ''a'', JStr ''a'']"
  by code_simp

text \<open>
  C6, as the code has it: on a wrapper of one node \<open>t\<close> (as the root wrapper is),
  \<open>findWhere(() => true)\<close> returns the pre-order list of the tree of \<open>t\<close> with every
  repetition of an earlier node removed; \<open>t\<close> comes first. When no two nodes of the
  tree are identical, that is the whole pre-order list, of length \<open>n\<close>.
\<close>

theorem findWhere_true_preorder:
  "nodes w = [t] \<Longrightarrow> \<not> isArray t \<Longrightarrow>
     \<exists>r. findWhere w (\<lambda>n. True) = Inr r \<and>
       nodes r = unique (preorder t) \<and> length_w r = length (nodes r) \<and>
       take 1 (nodes r) = [t] \<and>
       (distinct_identity (preorder t) \<longrightarrow>
          nodes r = preorder t \<and> length_w r = length (preorder t))"
proof -
  assume n: "nodes w = [t]" and a: "\<not> isArray t"
  have nd: "node (wrap w t) = t"
    using a by (cases t) (simp_all add: wrap_def new_child_def)
  have fl: "flatten_shallow [fresh_array xs] = xs" for xs
    by (simp add: flatten_shallow_def fresh_array_def)
  have fw: "findWhere w (\<lambda>n. True) = Inr (wrap w (fresh_array (unique (preorder t))))"
    by (simp add: findWhere_def flatMap_def n nd fl treeFilter_preorder)
  obtain ys where u: "unique (preorder t) = t # ys"
    using unique_Cons [of t "concat (map preorder (childrenOfNode t))"]
    by (subst (asm) preorder.simps [symmetric]) blast
  show ?thesis
    using fw u unique_distinct [of "preorder t"] by (simp add: wrap_fresh_array)
qed

theorem findWhere_true_preorder_witness:
  "nodes (shallow t_root) = [t_root] \<and> \<not> isArray t_root \<and>
   distinct_identity (preorder t_root) \<and>
   (\<exists>r. findWhere (shallow t_root) (\<lambda>n. True) = Inr r \<and>
        nodes r = [t_root, t_A, t_target, t_B, t_i] \<and> length_w r = 5)"
proof -
  have a: "nodes (shallow t_root) = [t_root]"
    by (simp add: shallow_def new_root_def dom_react_def)
  have b: "\<not> isArray t_root"
    by (simp add: t_root_def)
  have c: "preorder t_root = [t_root, t_A, t_target, t_B, t_i]"
    by code_simp
  have d: "distinct_identity [t_root, t_A, t_target, t_B, t_i]"
    by code_simp
  from findWhere_true_preorder [OF a b] obtain r where
    "findWhere (shallow t_root) (\<lambda>n. True) = Inr r" and
    "distinct_identity (preorder t_root) \<longrightarrow>
       nodes r = preorder t_root \<and> length_w r = length (preorder t_root)"
    by blast
  then show ?thesis using a b d by (auto simp: c)
qed

text \<open>
  C7. \<open>hasClassName(node, c)\<close> is to hold exactly when \<open>c\<close> is one of the
  space-delimited tokens of the \<open>className\<close> prop. The test looks for \<open>' ' + c + ' '\<close>
  in \<open>' ' + className + ' '\<close>, so an argument with a space in it is found when it is a
  run of neighbouring tokens, though it is no token: \<open>foo bar\<close> in \<open>foo bar baz\<close>.
\<close>

theorem hasClassName_finds_phrase:
  "hasClassName (JElem 1 (Tag ''div'') [(''className'', JStr ''foo bar baz'')]) ''foo bar'' = True \<and>
   ''foo bar'' \<notin> set (tokens ''foo bar baz'')"
  by (simp add: hasClassName_def classes_of_def get_prop_def)

text \<open>
  C7, as the code has it: for a class name \<open>c\<close> without a space, \<open>hasClassName(node, c)\<close>
  holds exactly when \<open>c\<close> is a space-delimited token of the string the \<open>className\<close> prop
  stands for (the prop itself when it is a string, the empty string when it is missing
  or falsy), compared character by character; \<open>foo\<close> is not found in \<open>foobar\<close>.
\<close>

theorem hasClassName_token:
  "CHR '' '' \<notin> set c \<Longrightarrow>
     hasClassName n c = (c \<in> set (tokens (ToString (classes_of n)))) \<and>
     (\<forall>r t ps s. map_of ps ''className'' = Some (JStr s) \<longrightarrow>
        hasClassName (JElem r t ps) c = (c \<in> set (tokens s))) \<and>
     hasClassName (JElem r' t' [(''className'', JStr ''foobar'')]) ''foo'' = False"
proof -
  assume c: "CHR '' '' \<notin> set c"
  have one: "hasClassName n c = (c \<in> set (tokens (ToString (classes_of n))))" for n
    using token_search [OF c] by (simp add: hasClassName_def)
  have two: "ToString (classes_of (JElem r t ps)) = s"
    if "map_of ps ''className'' = Some (JStr s)" for r t ps s
    using that by (simp add: classes_of_def get_prop_def)
  have three: "hasClassName (JElem r' t' [(''className'', JStr ''foobar'')]) ''foo'' = False"
    by (simp add: hasClassName_def classes_of_def get_prop_def)
  show ?thesis using one two three by simp
qed

theorem hasClassName_token_witness:
  "CHR '' '' \<notin> set ''bar'' \<and>
   hasClassName (JElem 7 (Tag ''div'') [(''className'', JStr ''foo bar'')]) ''bar'' = True \<and>
   ''bar'' \<in> set (tokens ''foo bar'') \<and>
   CHR '' '' \<notin> set ''Bar'' \<and>
   hasClassName (JElem 7 (Tag ''div'') [(''className'', JStr ''foo bar'')]) ''Bar'' = False"
proof -
  let ?n = "JElem 7 (Tag ''div'') [(''className'', JStr ''foo bar'')]"
  have a: "CHR '' '' \<notin> set ''bar''" and b: "CHR '' '' \<notin> set ''Bar''"
    by simp_all
  have c: "ToString (classes_of ?n) = ''foo bar''"
    by (simp add: classes_of_def get_prop_def)
  have x: "hasClassName ?n ''bar'' = (''bar'' \<in> set (tokens (ToString (classes_of ?n))))"
    using hasClassName_token [OF a, of ?n] by (rule conjunct1)
  have y: "hasClassName ?n ''Bar'' = (''Bar'' \<in> set (tokens (ToString (classes_of ?n))))"
    using hasClassName_token [OF b, of ?n] by (rule conjunct1)
  show ?thesis
    unfolding x y c by simp
qed

text \<open>
  C8. The predicate compiled from a compound simple selector is to hold on a node
  exactly when every fragment's predicate holds on it, whatever the order of the
  fragments. \<open>buildPredicate\<close> splits a selector only when \<open>isCompoundSelector\<close>
  matches, and that expression asks for a letter on both sides of the dot. The selector
  \<open>.col-md-6.active\<close> has a digit before its second dot: it is simple,
  \<open>splitSelector\<close> cuts it into \<open>.col-md-6\<close> and \<open>.active\<close>, both of which hold on
  \<^verbatim>\<open><div className="col-md-6 active" />\<close>, but it is compiled as the one class
  name \<open>col-md-6.active\<close> and does not hold there; the same fragments in the other
  order, \<open>.active.col-md-6\<close>, are detected and hold. Likewise \<open>h1.foo\<close> is compiled as
  the one tag name \<open>h1.foo\<close> and does not hold on \<^verbatim>\<open><h1 className="foo" />\<close>.
\<close>

theorem compound_selector_not_detected:
  "isSimpleSelector ''.col-md-6.active'' = True \<and>
   isCompoundSelector ''.col-md-6.active'' = False \<and>
   splitSelector ''.col-md-6.active'' = [''.col-md-6'', ''.active''] \<and>
   map_sum id (\<lambda>p. p e_grid) (buildPredicate (SelStr ''.col-md-6.active'')) = Inr False \<and>
   map_sum id (\<lambda>p. p e_grid) (buildPredicate (SelStr ''.col-md-6'')) = Inr True \<and>
   map_sum id (\<lambda>p. p e_grid) (buildPredicate (SelStr ''.active'')) = Inr True \<and>
   map_sum id (\<lambda>p. p e_grid) (buildPredicate (SelStr ''.active.col-md-6'')) = Inr True \<and>
   isSimpleSelector ''h1.foo'' = True \<and>
   isCompoundSelector ''h1.foo'' = False \<and>
   splitSelector ''h1.foo'' = [''h1'', ''.foo''] \<and>
   map_sum id (\<lambda>p. p e_h1) (buildPredicate (SelStr ''h1.foo'')) = Inr False \<and>
   map_sum id (\<lambda>p. p e_h1) (buildPredicate (SelStr ''h1'')) = Inr True \<and>
   map_sum id (\<lambda>p. p e_h1) (buildPredicate (SelStr ''.foo'')) = Inr True"
  by code_simp

text \<open>
  Where \<open>isCompoundSelector\<close> does match, the compiled predicate is the conjunction of
  the fragments' predicates: the loop of \<open>AND\<close> runs from the last predicate to the
  first, and the predicates taken in any other order give the same result.
\<close>

lemma compound_is_conjunction:
  assumes "isSimpleSelector s" and "isCompoundSelector s"
  shows "\<exists>p. buildPredicate (SelStr s) = Inr p \<and>
           (\<forall>n. p n \<longleftrightarrow> (\<forall>f\<in>set (splitSelector s). \<exists>q. buildPredicate (SelStr f) = Inr q \<and> q n)) \<and>
           (\<forall>fs qs n. mset fs = mset (splitSelector s) \<and>
                 map (\<lambda>f. buildPredicate (SelStr f)) fs = map Inr qs \<longrightarrow> AND qs n = p n)"
proof -
  let ?bp = "\<lambda>f. buildPredicate (SelStr f)"
  obtain p where p: "buildPredicate (SelStr s) = Inr p"
    using simple_compiles [OF assms(1)] by blast
  then obtain fns where c: "collect (map ?bp (splitSelector s)) = Inr fns" and pf: "p = AND fns"
    using assms by (auto simp: buildPredicate.simps(2) split: sum.splits)
  from c have m: "map ?bp (splitSelector s) = map Inr fns"
    by (rule collect_Inr)
  have img: "?bp ` set (splitSelector s) = Inr ` set fns"
  proof -
    have "?bp ` set (splitSelector s) = set (map ?bp (splitSelector s))" by simp
    also have "\<dots> = set (map Inr fns)" by (simp only: m)
    also have "\<dots> = Inr ` set fns" by simp
    finally show ?thesis .
  qed
  have one: "p n \<longleftrightarrow> (\<forall>f\<in>set (splitSelector s). \<exists>q. ?bp f = Inr q \<and> q n)" for n
  proof
    assume "p n"
    then have all: "\<forall>q\<in>set fns. q n" by (simp add: pf AND_conj)
    show "\<forall>f\<in>set (splitSelector s). \<exists>q. ?bp f = Inr q \<and> q n"
    proof
      fix f assume f: "f \<in> set (splitSelector s)"
      then have "?bp f \<in> Inr ` set fns" using img by blast
      then show "\<exists>q. ?bp f = Inr q \<and> q n" using all by auto
    qed
  next
    assume r: "\<forall>f\<in>set (splitSelector s). \<exists>q. ?bp f = Inr q \<and> q n"
    have "\<forall>q\<in>set fns. q n"
    proof
      fix q assume "q \<in> set fns"
      then have "Inr q \<in> ?bp ` set (splitSelector s)" using img by blast
      then obtain f where f: "f \<in> set (splitSelector s)" and b: "?bp f = Inr q"
        by auto
      from r f obtain q' where "?bp f = Inr q'" and "q' n" by blast
      then show "q n" using b by simp
    qed
    then show "p n" by (simp add: pf AND_conj)
  qed
  have two: "AND qs n = p n"
    if "mset fs = mset (splitSelector s)" and "map ?bp fs = map Inr qs" for fs qs n
  proof -
    have sf: "set fs = set (splitSelector s)" using that(1) by (rule mset_eq_setD)
    have "Inr ` set qs = set (map Inr qs)" by simp
    also have "\<dots> = set (map ?bp fs)" by (simp only: that(2))
    also have "\<dots> = ?bp ` set (splitSelector s)" by (simp add: sf)
    also have "\<dots> = Inr ` set fns" by (rule img)
    finally have "set qs = set fns" by (simp add: inj_image_eq_iff)
    then show ?thesis by (simp add: pf AND_conj)
  qed
  show ?thesis
  proof (intro exI conjI allI impI)
    show "buildPredicate (SelStr s) = Inr p" by (rule p)
  next
    fix n
    show "p n \<longleftrightarrow> (\<forall>f\<in>set (splitSelector s). \<exists>q. ?bp f = Inr q \<and> q n)" by (rule one)
  next
    fix fs qs n
    assume "mset fs = mset (splitSelector s) \<and> map ?bp fs = map Inr qs"
    then show "AND qs n = p n" using two [of fs qs n] by simp
  qed
qed

lemma compound_is_conjunction_example:
  "isSimpleSelector ''div.foo'' \<and> isCompoundSelector ''div.foo'' \<and>
   splitSelector ''div.foo'' = [''div'', ''.foo''] \<and>
   (\<exists>p. buildPredicate (SelStr ''div.foo'') = Inr p \<and>
        (\<forall>n. p n \<longleftrightarrow> nodeHasType n ''div'' \<and> hasClassName n ''foo''))"
proof -
  have a: "isSimpleSelector ''div.foo''"
    by (simp add: isSimpleSelector_def complex_char_def is_space_def)
  have b: "isCompoundSelector ''div.foo''"
    by (simp add: is_letter_def)
  have c: "splitSelector ''div.foo'' = [''div'', ''.foo'']"
    by (simp add: splitSelector_def)
  have d: "buildPredicate (SelStr ''div'') = Inr (\<lambda>node. nodeHasType node ''div'')"
    by (simp add: buildPredicate.simps(2) isSimpleSelector_def complex_char_def is_space_def)
  have e: "buildPredicate (SelStr ''.foo'') = Inr (\<lambda>node. hasClassName node ''foo'')"
    by (simp add: buildPredicate.simps(2) isSimpleSelector_def complex_char_def is_space_def)
  from compound_is_conjunction [OF a b] obtain p where
    p: "buildPredicate (SelStr ''div.foo'') = Inr p" and
    q: "\<And>n. p n \<longleftrightarrow> (\<forall>f\<in>set (splitSelector ''div.foo''). \<exists>q. buildPredicate (SelStr f) = Inr q \<and> q n)"
    by blast
  have "p n \<longleftrightarrow> nodeHasType n ''div'' \<and> hasClassName n ''foo''" for n
    unfolding q [of n] c by (simp add: d e)
  then show ?thesis using a b c p by blast
qed

text \<open>
  C9. On a wrapper that is not the root, \<open>setState\<close>, \<open>setProps\<close> and \<open>state()\<close> throw
  (the error naming the method) before anything else happens, and the wrapper is as it
  was.
\<close>

theorem root_only_enforced:
  "\<not> is_root w \<Longrightarrow>
     setState api w st = (Some (RootOnly ''setState''), w) \<and>
     setProps api w ps = (Some (RootOnly ''setProps''), w) \<and>
     state api w name = Inl (RootOnly ''state'')"
  by (simp add: setState_def setProps_def state_def)

theorem root_only_enforced_witness:
  "\<not> is_root (wrap (shallow t_root) t_A) \<and>
   setState dom_react (wrap (shallow t_root) t_A) (JObj 9 [(''id'', JStr ''bar'')])
     = (Some (RootOnly ''setState''), wrap (shallow t_root) t_A) \<and>
   setProps dom_react (wrap (shallow t_root) t_A) (JObj 9 [(''id'', JStr ''bar'')])
     = (Some (RootOnly ''setProps''), wrap (shallow t_root) t_A) \<and>
   state dom_react (wrap (shallow t_root) t_A) None = Inl (RootOnly ''state'') \<and>
   node (wrap (shallow t_root) t_A) = t_A"
proof -
  have h: "\<not> is_root (wrap (shallow t_root) t_A)"
    by (simp add: is_root_def wrap_def new_child_def t_A_def)
  have n: "node (wrap (shallow t_root) t_A) = t_A"
    by (simp add: wrap_def new_child_def t_A_def)
  show ?thesis
    using h n
      root_only_enforced [OF h, of dom_react "JObj 9 [(''id'', JStr ''bar'')]"
        "JObj 9 [(''id'', JStr ''bar'')]" None]
    by simp
qed

text \<open>
  C10. On an empty wrapper, \<open>first()\<close> and \<open>last()\<close> return a wrapper of length 1 whose
  one node is \<open>undefined\<close>, with the same root; so does \<open>get(i)\<close> for every index outside
  the node list of any wrapper. None of them can throw.
\<close>

theorem first_last_of_empty:
  "length_w (w :: 'r ShallowWrapper) = length (nodes w) \<Longrightarrow> length_w w = 0 \<Longrightarrow>
     first w = ShallowWrapper (Some (root w)) JNull None JUndefined [JUndefined] 1 \<and>
     last_w w = ShallowWrapper (Some (root w)) JNull None JUndefined [JUndefined] 1 \<and>
     (\<forall>(v :: 'r ShallowWrapper) i. i < 0 \<or> int (length (nodes v)) \<le> i \<longrightarrow>
        get_w v i = ShallowWrapper (Some (root v)) JNull None JUndefined [JUndefined] 1)"
  by (auto simp: first_def last_w_def get_w_def nodes_at_def wrap_def new_child_def)

theorem first_last_of_empty_witness:
  "length_w (filterWhere (shallow t_root) (\<lambda>n. False)) = 0 \<and>
   nodes (first (filterWhere (shallow t_root) (\<lambda>n. False))) = [JUndefined] \<and>
   length_w (first (filterWhere (shallow t_root) (\<lambda>n. False))) = 1 \<and>
   nodes (last_w (filterWhere (shallow t_root) (\<lambda>n. False))) = [JUndefined] \<and>
   length_w (last_w (filterWhere (shallow t_root) (\<lambda>n. False))) = 1 \<and>
   nodes (get_w (shallow t_root) 1) = [JUndefined]"
proof -
  let ?w = "filterWhere (shallow t_root) (\<lambda>n. False) :: jsval ShallowWrapper"
  have a: "length_w ?w = length (nodes ?w)"
    by (simp add: filterWhere_def wrap_def new_child_def fresh_array_def compact_def)
  have b: "length_w ?w = 0"
    by (simp add: filterWhere_def wrap_def new_child_def fresh_array_def compact_def)
  have c: "nodes (shallow t_root) = [t_root]"
    by (simp add: shallow_def new_root_def dom_react_def)
  from first_last_of_empty [OF a b]
  have f: "first ?w = ShallowWrapper (Some (root ?w)) JNull None JUndefined [JUndefined] 1"
    and l: "last_w ?w = ShallowWrapper (Some (root ?w)) JNull None JUndefined [JUndefined] 1"
    and g: "get_w (shallow t_root) 1
              = ShallowWrapper (Some (root (shallow t_root))) JNull None JUndefined [JUndefined] 1"
    by (simp_all add: c)
  show ?thesis
    by (simp add: b f l g)
qed

end
